theory Spec2Isabelle
  imports Main "HOL-Library.Word" "HOL-Library.Char_ord" "HOL-Library.List_Lexorder"
    "HOL-Library.AList"
begin

unbundle bit_operations_syntax

section \<open>Python values, dictionaries and exceptions\<close>

text \<open>
  The records handled by \<^verbatim>\<open>util.py\<close> are Python dictionaries with string keys whose
  values come from decoded JSON or from a parsed feed. A value is \<^verbatim>\<open>None\<close>, a boolean,
  an integer, a string or a list. A Python \<^verbatim>\<open>str\<close> is a sequence of code points; it is
  modelled as a \<^typ>\<open>string\<close> in which every \<^typ>\<open>char\<close> stands for one code point below
  256, so \<^const>\<open>length\<close> is Python's \<^verbatim>\<open>len\<close>. A dictionary is an association list in
  insertion order, as Python's \<^verbatim>\<open>dict\<close> keeps it.
\<close>

datatype pyval = PNone | PBool bool | PInt int | PStr string | PList "pyval list"

type_synonym pydict = "(string \<times> pyval) list"

datatype error = TypeError | AttributeError | KeyError

text \<open>Truth value testing, as used by \<^verbatim>\<open>or\<close> and \<^verbatim>\<open>if\<close>.\<close>

fun truthy :: "pyval \<Rightarrow> bool" where
  "truthy PNone = False"
| "truthy (PBool b) = b"
| "truthy (PInt i) = (i \<noteq> 0)"
| "truthy (PStr s) = (s \<noteq> [])"
| "truthy (PList xs) = (xs \<noteq> [])"

text \<open>\<^verbatim>\<open>x or y\<close>: the first operand when it is truthy, the second otherwise.\<close>

definition py_or :: "pyval \<Rightarrow> pyval \<Rightarrow> pyval" where
  "py_or x y = (if truthy x then x else y)"

text \<open>\<^verbatim>\<open>d.get(k)\<close>, \<^verbatim>\<open>d.get(k, default)\<close> and \<^verbatim>\<open>d[k]\<close>.\<close>

definition dict_get :: "pydict \<Rightarrow> string \<Rightarrow> pyval" where
  "dict_get d k = (case map_of d k of None \<Rightarrow> PNone | Some v \<Rightarrow> v)"

definition dict_get_default :: "pydict \<Rightarrow> string \<Rightarrow> pyval \<Rightarrow> pyval" where
  "dict_get_default d k dflt = (case map_of d k of None \<Rightarrow> dflt | Some v \<Rightarrow> v)"

definition dict_item :: "pydict \<Rightarrow> string \<Rightarrow> error + pyval" where
  "dict_item d k = (case map_of d k of None \<Rightarrow> Inl KeyError | Some v \<Rightarrow> Inr v)"

text \<open>\<^verbatim>\<open>d[k] = v\<close>: an existing key keeps its position, a new key goes last.\<close>

definition dict_set :: "pydict \<Rightarrow> string \<Rightarrow> pyval \<Rightarrow> pydict" where
  "dict_set d k v = AList.update k v d"

definition dict_keys :: "pydict \<Rightarrow> string list" where
  "dict_keys d = map fst d"

text \<open>
  \<^verbatim>\<open>x + y\<close>: concatenation of two strings or of two lists, addition of integers
  (a boolean counts as 0 or 1), \<^verbatim>\<open>TypeError\<close> for every other pair.
\<close>

fun as_int :: "pyval \<Rightarrow> int option" where
  "as_int (PBool b) = Some (if b then 1 else 0)"
| "as_int (PInt i) = Some i"
| "as_int _ = None"

fun py_add :: "pyval \<Rightarrow> pyval \<Rightarrow> error + pyval" where
  "py_add (PStr a) (PStr b) = Inr (PStr (a @ b))"
| "py_add (PList a) (PList b) = Inr (PList (a @ b))"
| "py_add x y =
     (case (as_int x, as_int y) of
        (Some i, Some j) \<Rightarrow> Inr (PInt (i + j))
      | _ \<Rightarrow> Inl TypeError)"

text \<open>\<^verbatim>\<open>x[:n]\<close>: strings and lists can be sliced, nothing else is subscriptable.\<close>

fun py_slice_to :: "nat \<Rightarrow> pyval \<Rightarrow> error + pyval" where
  "py_slice_to n (PStr s) = Inr (PStr (take n s))"
| "py_slice_to n (PList xs) = Inr (PList (take n xs))"
| "py_slice_to n _ = Inl TypeError"

text \<open>\<^verbatim>\<open>len(x)\<close>.\<close>

fun py_len :: "pyval \<Rightarrow> error + nat" where
  "py_len (PStr s) = Inr (length s)"
| "py_len (PList xs) = Inr (length xs)"
| "py_len _ = Inl TypeError"

text \<open>\<^verbatim>\<open>" ".join(xs)\<close>: every item must be a string.\<close>

fun py_join_space :: "pyval list \<Rightarrow> error + string" where
  "py_join_space [] = Inr []"
| "py_join_space [PStr s] = Inr s"
| "py_join_space (PStr s # x # xs) =
     (case py_join_space (x # xs) of Inl e \<Rightarrow> Inl e | Inr r \<Rightarrow> Inr (s @ '' '' @ r))"
| "py_join_space (_ # xs) = Inl TypeError"

text \<open>
  \<^verbatim>\<open>s.lower()\<close> on code points below 256: the ASCII capitals and the capitals
  U+00C0 to U+00DE other than the multiplication sign U+00D7 move up by 32.
\<close>

definition char_lower :: "char \<Rightarrow> char" where
  "char_lower c =
     (let n = (of_char c :: nat)
      in if (65 \<le> n \<and> n \<le> 90) \<or> (192 \<le> n \<and> n \<le> 222 \<and> n \<noteq> 215)
         then char_of (n + 32) else c)"

definition str_lower :: "string \<Rightarrow> string" where
  "str_lower s = map char_lower s"

text \<open>\<^verbatim>\<open>needle in hay\<close> on strings: \<open>needle\<close> occurs as a contiguous run of \<open>hay\<close>.\<close>

fun py_in_str :: "string \<Rightarrow> string \<Rightarrow> bool" where
  "py_in_str needle [] = (needle = [])"
| "py_in_str needle (c # cs) = (take (length needle) (c # cs) = needle \<or> py_in_str needle cs)"

section \<open>The digest of \<^verbatim>\<open>hashlib.sha256\<close>\<close>

type_synonym u32 = "32 word"
type_synonym byte = "8 word"

text \<open>\<^verbatim>\<open>s.encode("utf-8")\<close>: one byte below U+0080, two bytes from there to U+00FF.\<close>

definition utf8_char :: "char \<Rightarrow> byte list" where
  "utf8_char c =
     (let n = (of_char c :: nat)
      in if n < 128 then [of_nat n] else [of_nat (192 + n div 64), of_nat (128 + n mod 64)])"

definition utf8_encode :: "string \<Rightarrow> byte list" where
  "utf8_encode s = concat (map utf8_char s)"

fun py_encode_utf8 :: "pyval \<Rightarrow> error + byte list" where
  "py_encode_utf8 (PStr s) = Inr (utf8_encode s)"
| "py_encode_utf8 _ = Inl AttributeError"

definition rotr :: "nat \<Rightarrow> u32 \<Rightarrow> u32" where
  "rotr n x = (drop_bit n x) OR (push_bit (32 - n) x)"

definition Ch :: "u32 \<Rightarrow> u32 \<Rightarrow> u32 \<Rightarrow> u32" where
  "Ch x y z = (x AND y) XOR (NOT x AND z)"

definition Maj :: "u32 \<Rightarrow> u32 \<Rightarrow> u32 \<Rightarrow> u32" where
  "Maj x y z = (x AND y) XOR (x AND z) XOR (y AND z)"

definition Sigma0 :: "u32 \<Rightarrow> u32" where
  "Sigma0 x = rotr 2 x XOR rotr 13 x XOR rotr 22 x"

definition Sigma1 :: "u32 \<Rightarrow> u32" where
  "Sigma1 x = rotr 6 x XOR rotr 11 x XOR rotr 25 x"

definition sigma0 :: "u32 \<Rightarrow> u32" where
  "sigma0 x = rotr 7 x XOR rotr 18 x XOR drop_bit 3 x"

definition sigma1 :: "u32 \<Rightarrow> u32" where
  "sigma1 x = rotr 17 x XOR rotr 19 x XOR drop_bit 10 x"

text \<open>The 64 round constants of FIPS 180-4, eight rounds to a row.\<close>

definition sha256_K_row0 :: "u32 list" where
  "sha256_K_row0 =
     [0x428a2f98, 0x71374491, 0xb5c0fbcf, 0xe9b5dba5,
      0x3956c25b, 0x59f111f1, 0x923f82a4, 0xab1c5ed5]"

definition sha256_K_row1 :: "u32 list" where
  "sha256_K_row1 =
     [0xd807aa98, 0x12835b01, 0x243185be, 0x550c7dc3,
      0x72be5d74, 0x80deb1fe, 0x9bdc06a7, 0xc19bf174]"

definition sha256_K_row2 :: "u32 list" where
  "sha256_K_row2 =
     [0xe49b69c1, 0xefbe4786, 0x0fc19dc6, 0x240ca1cc,
      0x2de92c6f, 0x4a7484aa, 0x5cb0a9dc, 0x76f988da]"

definition sha256_K_row3 :: "u32 list" where
  "sha256_K_row3 =
     [0x983e5152, 0xa831c66d, 0xb00327c8, 0xbf597fc7,
      0xc6e00bf3, 0xd5a79147, 0x06ca6351, 0x14292967]"

definition sha256_K_row4 :: "u32 list" where
  "sha256_K_row4 =
     [0x27b70a85, 0x2e1b2138, 0x4d2c6dfc, 0x53380d13,
      0x650a7354, 0x766a0abb, 0x81c2c92e, 0x92722c85]"

definition sha256_K_row5 :: "u32 list" where
  "sha256_K_row5 =
     [0xa2bfe8a1, 0xa81a664b, 0xc24b8b70, 0xc76c51a3,
      0xd192e819, 0xd6990624, 0xf40e3585, 0x106aa070]"

definition sha256_K_row6 :: "u32 list" where
  "sha256_K_row6 =
     [0x19a4c116, 0x1e376c08, 0x2748774c, 0x34b0bcb5,
      0x391c0cb3, 0x4ed8aa4a, 0x5b9cca4f, 0x682e6ff3]"

definition sha256_K_row7 :: "u32 list" where
  "sha256_K_row7 =
     [0x748f82ee, 0x78a5636f, 0x84c87814, 0x8cc70208,
      0x90befffa, 0xa4506ceb, 0xbef9a3f7, 0xc67178f2]"

definition sha256_K :: "u32 list" where
  "sha256_K =
     sha256_K_row0 @ sha256_K_row1 @ sha256_K_row2 @ sha256_K_row3
       @ sha256_K_row4 @ sha256_K_row5 @ sha256_K_row6 @ sha256_K_row7"

definition sha256_H0 :: "u32 list" where
  "sha256_H0 =
    [0x6a09e667, 0xbb67ae85, 0x3c6ef372, 0xa54ff53a, 0x510e527f, 0x9b05688c, 0x1f83d9ab, 0x5be0cd19]"

definition be64 :: "64 word \<Rightarrow> byte list" where
  "be64 n = map (\<lambda>i. ucast (drop_bit (8 * i) n)) [7, 6, 5, 4, 3, 2, 1, 0]"

definition sha256_pad :: "byte list \<Rightarrow> byte list" where
  "sha256_pad bs =
     bs @ [0x80] @ replicate ((64 - (length bs + 9) mod 64) mod 64) 0
        @ be64 (8 * of_nat (length bs))"

fun be_words :: "byte list \<Rightarrow> u32 list" where
  "be_words (a # b # c # d # bs) =
     (push_bit 24 (ucast a) OR push_bit 16 (ucast b) OR push_bit 8 (ucast c) OR ucast d)
       # be_words bs"
| "be_words _ = []"

fun chunks :: "nat \<Rightarrow> 'a list \<Rightarrow> 'a list list" where
  "chunks 0 xs = []"
| "chunks (Suc n) xs = take 16 xs # chunks n (drop 16 xs)"

fun schedule :: "nat \<Rightarrow> u32 list \<Rightarrow> u32 list" where
  "schedule 0 w = w"
| "schedule (Suc n) w =
     schedule n (w @ [sigma1 (w ! (length w - 2)) + w ! (length w - 7)
                      + sigma0 (w ! (length w - 15)) + w ! (length w - 16)])"

type_synonym sha_state = "u32 \<times> u32 \<times> u32 \<times> u32 \<times> u32 \<times> u32 \<times> u32 \<times> u32"

fun sha_round :: "sha_state \<Rightarrow> u32 \<times> u32 \<Rightarrow> sha_state" where
  "sha_round (a, b, c, d, e, f, g, h) (k, w) =
     (let t1 = h + Sigma1 e + Ch e f g + k + w;
          t2 = Sigma0 a + Maj a b c
      in (t1 + t2, a, b, c, d + t1, e, f, g))"

fun compress :: "u32 list \<Rightarrow> u32 list \<Rightarrow> u32 list" where
  "compress [a, b, c, d, e, f, g, h] blk =
     (case foldl sha_round (a, b, c, d, e, f, g, h) (zip sha256_K (schedule 48 blk)) of
        (a', b', c', d', e', f', g', h') \<Rightarrow>
          [a + a', b + b', c + c', d + d', e + e', f + f', g + g', h + h'])"
| "compress hs blk = hs"

definition sha256_words :: "byte list \<Rightarrow> u32 list" where
  "sha256_words bs =
     (let ws = be_words (sha256_pad bs)
      in foldl compress sha256_H0 (chunks (length ws div 16) ws))"

definition hex_digit :: "nat \<Rightarrow> char" where
  "hex_digit n = ''0123456789abcdef'' ! n"

definition hex_u32 :: "u32 \<Rightarrow> string" where
  "hex_u32 w = map (\<lambda>i. hex_digit (unat (drop_bit (4 * i) w AND 15))) [7, 6, 5, 4, 3, 2, 1, 0]"

text \<open>\<^verbatim>\<open>hashlib.sha256(bs).hexdigest()\<close>.\<close>

definition sha256_hexdigest :: "byte list \<Rightarrow> string" where
  "sha256_hexdigest bs = concat (map hex_u32 (sha256_words bs))"

section \<open>\<^verbatim>\<open>normalize_article\<close>\<close>

text \<open>
  \<^verbatim>\<open>(out["description"][:300] + "...") if out["description"] else (out["content"][:300] + "...")\<close>
\<close>

definition truncate_ellipsis :: "pyval \<Rightarrow> error + pyval" where
  "truncate_ellipsis x =
     (case py_slice_to 300 x of Inl e \<Rightarrow> Inl e | Inr y \<Rightarrow> py_add y (PStr ''...''))"

definition summary_of :: "pyval \<Rightarrow> pyval \<Rightarrow> error + pyval" where
  "summary_of description content =
     (if truthy description then truncate_ellipsis description else truncate_ellipsis content)"

text \<open>
  \<^verbatim>\<open>key = (out["title"] or "") + (out["source_url"] or "")\<close>, then
  \<^verbatim>\<open>hashlib.sha256(key.encode("utf-8")).hexdigest()\<close>.
\<close>

definition article_id :: "pyval \<Rightarrow> pyval \<Rightarrow> error + pyval" where
  "article_id title source_url =
     (case py_add (py_or title (PStr '''')) (py_or source_url (PStr '''')) of
        Inl e \<Rightarrow> Inl e
      | Inr key \<Rightarrow>
          (case py_encode_utf8 key of
             Inl e \<Rightarrow> Inl e
           | Inr bs \<Rightarrow> Inr (PStr (sha256_hexdigest bs))))"

text \<open>
  \<open>now\<close> is what \<^verbatim>\<open>datetime.utcnow().isoformat()\<close> returns at the time of the call,
  \<open>source\<close> the optional default label (\<^verbatim>\<open>None\<close> when not given). The function reads
  \<^verbatim>\<open>out[...]\<close> only at keys assigned on an earlier line, so each read is the value
  assigned there; the dictionary is returned with its keys in the order of assignment.
\<close>

definition normalize_article :: "string \<Rightarrow> pydict \<Rightarrow> pyval \<Rightarrow> error + pydict" where
  "normalize_article now a source =
     (let title = py_or (py_or (dict_get a ''title'') (dict_get a ''headline'')) (PStr '''');
          description = py_or (dict_get a ''description'') (PStr '''');
          content = py_or (py_or (dict_get a ''content'') (dict_get a ''snippet'')) description;
          source_url = py_or (py_or (dict_get a ''url'') (dict_get a ''link'')) (PStr '''');
          published = py_or (py_or (dict_get a ''published'') (dict_get a ''publishedAt''))
                        (PStr now);
          src = py_or (py_or (dict_get a ''source'') source) (PStr '''')
      in case summary_of description content of
           Inl e \<Rightarrow> Inl e
         | Inr summary \<Rightarrow>
             (case article_id title source_url of
                Inl e \<Rightarrow> Inl e
              | Inr ident \<Rightarrow>
                  Inr [(''title'', title), (''description'', description),
                       (''content'', content), (''source_url'', source_url),
                       (''published'', published), (''source'', src),
                       (''summary'', summary), (''id'', ident)]))"

section \<open>\<^verbatim>\<open>dedupe_articles\<close>\<close>

text \<open>
  One iteration of the loop on the dictionary \<open>seen\<close>, whose keys are the \<^verbatim>\<open>id\<close>
  values. \<^verbatim>\<open>not existing\<close> holds for \<^verbatim>\<open>None\<close> and for an empty dictionary.
\<close>

type_synonym seen_dict = "(pyval \<times> pydict) list"

definition content_len :: "pydict \<Rightarrow> error + nat" where
  "content_len d = py_len (py_or (dict_get_default d ''content'' (PStr '''')) (PStr ''''))"

definition dedupe_step :: "seen_dict \<Rightarrow> pydict \<Rightarrow> error + seen_dict" where
  "dedupe_step seen norm =
     (case dict_item norm ''id'' of
        Inl e \<Rightarrow> Inl e
      | Inr key \<Rightarrow>
          (case map_of seen key of
             None \<Rightarrow> Inr (AList.update key norm seen)
           | Some existing \<Rightarrow>
               if existing = [] then Inr (AList.update key norm seen)
               else (case content_len existing of
                       Inl e \<Rightarrow> Inl e
                     | Inr existing_content_len \<Rightarrow>
                         (case content_len norm of
                            Inl e \<Rightarrow> Inl e
                          | Inr new_content_len \<Rightarrow>
                              Inr (if new_content_len > existing_content_len
                                   then AList.update key norm seen else seen)))))"

text \<open>
  The loop. \<open>clock i\<close> is the time read by the \<open>i\<close>-th call of
  \<^verbatim>\<open>normalize_article\<close>; the call for a record uses the record's own \<^verbatim>\<open>source\<close>.
\<close>

fun dedupe_loop :: "(nat \<Rightarrow> string) \<Rightarrow> nat \<Rightarrow> seen_dict \<Rightarrow> pydict list \<Rightarrow> error + seen_dict" where
  "dedupe_loop clock i seen [] = Inr seen"
| "dedupe_loop clock i seen (a # as) =
     (case normalize_article (clock i) a (dict_get a ''source'') of
        Inl e \<Rightarrow> Inl e
      | Inr norm \<Rightarrow>
          (case dedupe_step seen norm of
             Inl e \<Rightarrow> Inl e
           | Inr seen' \<Rightarrow> dedupe_loop clock (Suc i) seen' as))"

definition dedupe_articles :: "(nat \<Rightarrow> string) \<Rightarrow> pydict list \<Rightarrow> error + pydict list" where
  "dedupe_articles clock articles =
     (case dedupe_loop clock 0 [] articles of
        Inl e \<Rightarrow> Inl e
      | Inr seen \<Rightarrow> Inr (map snd seen))"

section \<open>\<^verbatim>\<open>detect_mutual_fund_mentions\<close>\<close>

definition article_text :: "pydict \<Rightarrow> error + string" where
  "article_text article =
     (case py_join_space [dict_get_default article ''title'' (PStr ''''),
                          dict_get_default article ''description'' (PStr ''''),
                          dict_get_default article ''content'' (PStr '''')] of
        Inl e \<Rightarrow> Inl e
      | Inr s \<Rightarrow> Inr (str_lower s))"

definition detect_mutual_fund_mentions :: "pydict \<Rightarrow> string list \<Rightarrow> error + string list" where
  "detect_mutual_fund_mentions article mf_list =
     (case article_text article of
        Inl e \<Rightarrow> Inl e
      | Inr text \<Rightarrow>
          Inr (sorted_list_of_set (set (filter (\<lambda>mf. py_in_str (str_lower mf) text) mf_list))))"


section \<open>The fetch session of \<^verbatim>\<open>app.py\<close>\<close>

text \<open>
  The body of each \<^verbatim>\<open>for a in ...\<close> loop: normalize with the channel's label, detect,
  attach the matches under \<^verbatim>\<open>source_detected_mf\<close>.
\<close>

definition annotate :: "string \<Rightarrow> pydict \<Rightarrow> string \<Rightarrow> string list \<Rightarrow> error + pydict" where
  "annotate now a label mf_list =
     (case normalize_article now a (PStr label) of
        Inl e \<Rightarrow> Inl e
      | Inr a_norm \<Rightarrow>
          (case detect_mutual_fund_mentions a_norm mf_list of
             Inl e \<Rightarrow> Inl e
           | Inr found \<Rightarrow> Inr (dict_set a_norm ''source_detected_mf'' (PList (map PStr found)))))"

text \<open>
  One source's loop inside its \<^verbatim>\<open>try\<close>: an exception ends the loop and is reported,
  the Articles appended before it stay in \<^verbatim>\<open>all_articles\<close>. The second component counts
  the calls of \<^verbatim>\<open>normalize_article\<close> made so far in the session.
\<close>

fun collect_source ::
  "(nat \<Rightarrow> string) \<Rightarrow> string \<Rightarrow> string list \<Rightarrow> pydict list \<times> nat \<Rightarrow> pydict list
     \<Rightarrow> pydict list \<times> nat" where
  "collect_source clock label mf_list (all_articles, i) [] = (all_articles, i)"
| "collect_source clock label mf_list (all_articles, i) (a # as) =
     (case annotate (clock i) a label mf_list of
        Inl e \<Rightarrow> (all_articles, Suc i)
      | Inr a_norm \<Rightarrow> collect_source clock label mf_list (all_articles @ [a_norm], Suc i) as)"

text \<open>
  The session from the fetched records on: \<open>n_articles\<close> and \<open>g_articles\<close> are what the
  two fetchers returned (empty when a fetcher was skipped or failed).
\<close>

definition fetch_session ::
  "(nat \<Rightarrow> string) \<Rightarrow> string list \<Rightarrow> pydict list \<Rightarrow> pydict list \<Rightarrow> error + pydict list" where
  "fetch_session clock mf_list n_articles g_articles =
     (case collect_source clock ''GoogleNewsRSS'' mf_list
             (collect_source clock ''NewsAPI'' mf_list ([], 0) n_articles) g_articles of
        (all_articles, i) \<Rightarrow> dedupe_articles (\<lambda>j. clock (i + j)) all_articles)"

section \<open>Notions used to state the properties\<close>


text \<open>The normalized forms of the input records, in input order.\<close>

fun normalized_inputs :: "(nat \<Rightarrow> string) \<Rightarrow> nat \<Rightarrow> pydict list \<Rightarrow> (error + pydict) list" where
  "normalized_inputs clock i [] = []"
| "normalized_inputs clock i (a # as) =
     normalize_article (clock i) a (dict_get a ''source'') # normalized_inputs clock (Suc i) as"

text \<open>The distinct elements of a list in the order of their first occurrence.\<close>

definition first_occurrences :: "'a list \<Rightarrow> 'a list" where
  "first_occurrences xs = rev (remdups (rev xs))"

text \<open>Comparison of two records by the length of their \<^verbatim>\<open>content\<close>.\<close>

definition shorter :: "pydict \<Rightarrow> pydict \<Rightarrow> bool" where
  "shorter x r =
     (case (content_len x, content_len r) of (Inr lx, Inr lr) \<Rightarrow> lx < lr | _ \<Rightarrow> False)"

definition not_longer :: "pydict \<Rightarrow> pydict \<Rightarrow> bool" where
  "not_longer x r =
     (case (content_len x, content_len r) of (Inr lx, Inr lr) \<Rightarrow> lx \<le> lr | _ \<Rightarrow> False)"

text \<open>
  \<open>r\<close> is the first record of greatest content length in \<open>recs\<close>: every record
  before it is strictly shorter, no record after it is longer.
\<close>

definition first_longest_in :: "pydict list \<Rightarrow> pydict \<Rightarrow> bool" where
  "first_longest_in recs r \<longleftrightarrow>
     (\<exists>pre post. recs = pre @ r # post
        \<and> (\<forall>x \<in> set pre. shorter x r) \<and> (\<forall>x \<in> set post. not_longer x r))"

text \<open>
  What the loop of \<^verbatim>\<open>dedupe_articles\<close> maintains, after the normalized records \<open>ps\<close>:
  the keys of \<open>seen\<close> are their ids in the order of first occurrence, and each key holds
  the first longest record among those with that id.
\<close>

definition dedupe_invariant :: "seen_dict \<Rightarrow> pydict list \<Rightarrow> bool" where
  "dedupe_invariant seen ps \<longleftrightarrow>
     map fst seen = first_occurrences (map (\<lambda>n. dict_get n ''id'') ps)
   \<and> (\<forall>k r. map_of seen k = Some r \<longrightarrow>
          dict_get r ''id'' = k \<and> r \<noteq> []
        \<and> first_longest_in (filter (\<lambda>n. dict_get n ''id'' = k) ps) r)"

section \<open>Basic facts\<close>


lemma py_or_truthy: "truthy y \<Longrightarrow> truthy (py_or x y)"
  by (simp add: py_or_def)

lemma py_or_left: "truthy x \<Longrightarrow> py_or x y = x"
  by (simp add: py_or_def)

lemma py_or_right: "\<not> truthy x \<Longrightarrow> py_or x y = y"
  by (simp add: py_or_def)

lemma truncate_ellipsis_Inr:
  "truncate_ellipsis x = Inr y \<longleftrightarrow> (\<exists>s. x = PStr s \<and> y = PStr (take 300 s @ ''...''))"
  by (cases x) (auto simp: truncate_ellipsis_def)

lemma truncate_ellipsis_Inl:
  "truncate_ellipsis x = Inl e \<longleftrightarrow> ((\<forall>s. x \<noteq> PStr s) \<and> e = TypeError)"
  by (cases x) (auto simp: truncate_ellipsis_def)


lemma summary_of_Inr:
  "summary_of d c = Inr y \<longleftrightarrow>
     (\<exists>s. (if truthy d then d else c) = PStr s \<and> y = PStr (take 300 s @ ''...''))"
  by (simp add: summary_of_def truncate_ellipsis_Inr)

lemma normalize_article_Inr:
  "normalize_article now a source = Inr out \<longleftrightarrow>
     (\<exists>summary ident.
        summary_of (py_or (dict_get a ''description'') (PStr ''''))
          (py_or (py_or (dict_get a ''content'') (dict_get a ''snippet''))
             (py_or (dict_get a ''description'') (PStr ''''))) = Inr summary
      \<and> article_id (py_or (py_or (dict_get a ''title'') (dict_get a ''headline'')) (PStr ''''))
          (py_or (py_or (dict_get a ''url'') (dict_get a ''link'')) (PStr '''')) = Inr ident
      \<and> out = [(''title'', py_or (py_or (dict_get a ''title'') (dict_get a ''headline'')) (PStr '''')),
               (''description'', py_or (dict_get a ''description'') (PStr '''')),
               (''content'', py_or (py_or (dict_get a ''content'') (dict_get a ''snippet''))
                               (py_or (dict_get a ''description'') (PStr ''''))),
               (''source_url'', py_or (py_or (dict_get a ''url'') (dict_get a ''link'')) (PStr '''')),
               (''published'', py_or (py_or (dict_get a ''published'') (dict_get a ''publishedAt'')) (PStr now)),
               (''source'', py_or (py_or (dict_get a ''source'') source) (PStr '''')),
               (''summary'', summary), (''id'', ident)])"
  by (auto simp: normalize_article_def Let_def split: sum.splits)











lemma dict_get_simps:
  "dict_get [] k = PNone"
  "dict_get ((k', v) # d) k = (if k' = k then v else dict_get d k)"
  by (simp_all add: dict_get_def)

lemma py_or_str_cases:
  "py_or x (PStr '''') = PStr s \<longleftrightarrow> (if truthy x then x = PStr s else s = [])"
  by (auto simp: py_or_def)

text \<open>
  Claim C4. Whenever \<^verbatim>\<open>normalize_article\<close> returns, the Article's \<^verbatim>\<open>description\<close> is a
  string \<open>d\<close>; the text \<open>s\<close> that is summarised is \<open>d\<close> when \<open>d\<close> is not empty and the
  Article's \<^verbatim>\<open>content\<close> otherwise; the \<^verbatim>\<open>summary\<close> is the first 300 characters of
  \<open>s\<close> followed by the marker \<^verbatim>\<open>...\<close>, so it has at most 303 characters. The marker is
  appended in every case: a text of at most 300 characters is followed by it as well, and
  when description and content are both empty the summary is the marker alone.
\<close>

theorem summary_truncated_with_ellipsis:
  assumes "normalize_article now a source = Inr out"
  shows "\<exists>d s. dict_get out ''description'' = PStr d
           \<and> (if d \<noteq> [] then s = d else dict_get out ''content'' = PStr s)
           \<and> dict_get out ''summary'' = PStr (take 300 s @ ''...'')
           \<and> length (take 300 s @ ''...'') \<le> 303
           \<and> (length s \<le> 300 \<longrightarrow> dict_get out ''summary'' = PStr (s @ ''...''))
           \<and> (d = [] \<and> s = [] \<longrightarrow> dict_get out ''summary'' = PStr ''...'')"
proof -
  define D where "D = py_or (dict_get a ''description'') (PStr '''')"
  define C where "C = py_or (py_or (dict_get a ''content'') (dict_get a ''snippet'')) D"
  from assms obtain summary where
    sm: "summary_of D C = Inr summary" and
    out: "dict_get out ''description'' = D" "dict_get out ''content'' = C"
         "dict_get out ''summary'' = summary"
    unfolding normalize_article_Inr D_def C_def by (auto simp: dict_get_simps)
  from sm obtain s where s: "(if truthy D then D else C) = PStr s"
    "summary = PStr (take 300 s @ ''...'')"
    unfolding summary_of_Inr by blast
  have "\<exists>d. D = PStr d \<and> (if d \<noteq> [] then s = d else C = PStr s)"
  proof (cases "truthy D")
    case True
    with s show ?thesis by auto
  next
    case False
    then have "D = PStr ''''" by (auto simp: D_def py_or_def)
    with False s show ?thesis by auto
  qed
  then obtain d where d: "D = PStr d" "if d \<noteq> [] then s = d else C = PStr s" by blast
  show ?thesis
    apply (rule exI [of _ d], rule exI [of _ s])
    using d s out by auto
qed

lemma normalize_abc:
  "normalize_article ''2026-01-01T00:00:00'' [(''description'', PStr ''abc'')] PNone
     = Inr [(''title'', PStr ''''), (''description'', PStr ''abc''), (''content'', PStr ''abc''),
            (''source_url'', PStr ''''), (''published'', PStr ''2026-01-01T00:00:00''),
            (''source'', PStr ''''), (''summary'', PStr ''abc...''),
            (''id'', PStr (sha256_hexdigest (utf8_encode '''')))]"
  by (simp add: normalize_article_def Let_def dict_get_simps py_or_def summary_of_def
        truncate_ellipsis_def article_id_def)

theorem summary_truncated_with_ellipsis_witness:
  "\<exists>out. normalize_article ''2026-01-01T00:00:00'' [(''description'', PStr ''abc'')] PNone = Inr out
     \<and> dict_get out ''description'' = PStr ''abc''
     \<and> dict_get out ''summary'' = PStr ''abc...''"
  using summary_truncated_with_ellipsis [OF normalize_abc] normalize_abc by (auto simp: dict_get_simps)

lemma normalize_article_fields:
  assumes "normalize_article now a source = Inr out"
  shows "dict_get out ''title'' =
           py_or (py_or (dict_get a ''title'') (dict_get a ''headline'')) (PStr '''')"
    and "dict_get out ''description'' = py_or (dict_get a ''description'') (PStr '''')"
    and "dict_get out ''content'' =
           py_or (py_or (dict_get a ''content'') (dict_get a ''snippet''))
             (dict_get out ''description'')"
    and "dict_get out ''source_url'' =
           py_or (py_or (dict_get a ''url'') (dict_get a ''link'')) (PStr '''')"
    and "dict_get out ''published'' =
           py_or (py_or (dict_get a ''published'') (dict_get a ''publishedAt'')) (PStr now)"
    and "dict_get out ''source'' = py_or (py_or (dict_get a ''source'') source) (PStr '''')"
    and "summary_of (dict_get out ''description'') (dict_get out ''content'')
           = Inr (dict_get out ''summary'')"
    and "article_id (dict_get out ''title'') (dict_get out ''source_url'')
           = Inr (dict_get out ''id'')"
    and "dict_keys out = [''title'', ''description'', ''content'', ''source_url'',
           ''published'', ''source'', ''summary'', ''id'']"
proof -
  from assms obtain summary ident where
    sm: "summary_of (py_or (dict_get a ''description'') (PStr ''''))
          (py_or (py_or (dict_get a ''content'') (dict_get a ''snippet''))
             (py_or (dict_get a ''description'') (PStr ''''))) = Inr summary"
    and ident: "article_id (py_or (py_or (dict_get a ''title'') (dict_get a ''headline'')) (PStr ''''))
          (py_or (py_or (dict_get a ''url'') (dict_get a ''link'')) (PStr '''')) = Inr ident"
    and out: "out = [(''title'', py_or (py_or (dict_get a ''title'') (dict_get a ''headline'')) (PStr '''')),
               (''description'', py_or (dict_get a ''description'') (PStr '''')),
               (''content'', py_or (py_or (dict_get a ''content'') (dict_get a ''snippet''))
                               (py_or (dict_get a ''description'') (PStr ''''))),
               (''source_url'', py_or (py_or (dict_get a ''url'') (dict_get a ''link'')) (PStr '''')),
               (''published'', py_or (py_or (dict_get a ''published'') (dict_get a ''publishedAt'')) (PStr now)),
               (''source'', py_or (py_or (dict_get a ''source'') source) (PStr '''')),
               (''summary'', summary), (''id'', ident)]"
    unfolding normalize_article_Inr by blast
  show "dict_get out ''title'' =
           py_or (py_or (dict_get a ''title'') (dict_get a ''headline'')) (PStr '''')"
    by (simp add: out dict_get_simps)
  show "dict_get out ''description'' = py_or (dict_get a ''description'') (PStr '''')"
    by (simp add: out dict_get_simps)
  show "dict_get out ''content'' =
           py_or (py_or (dict_get a ''content'') (dict_get a ''snippet''))
             (dict_get out ''description'')"
    by (simp add: out dict_get_simps)
  show "dict_get out ''source_url'' =
           py_or (py_or (dict_get a ''url'') (dict_get a ''link'')) (PStr '''')"
    by (simp add: out dict_get_simps)
  show "dict_get out ''published'' =
           py_or (py_or (dict_get a ''published'') (dict_get a ''publishedAt'')) (PStr now)"
    by (simp add: out dict_get_simps)
  show "dict_get out ''source'' = py_or (py_or (dict_get a ''source'') source) (PStr '''')"
    by (simp add: out dict_get_simps)
  show "summary_of (dict_get out ''description'') (dict_get out ''content'')
           = Inr (dict_get out ''summary'')"
    using sm by (simp add: out dict_get_simps)
  show "article_id (dict_get out ''title'') (dict_get out ''source_url'')
           = Inr (dict_get out ''id'')"
    using ident by (simp add: out dict_get_simps)
  show "dict_keys out = [''title'', ''description'', ''content'', ''source_url'',
           ''published'', ''source'', ''summary'', ''id'']"
    by (simp add: out dict_keys_def)
qed

lemma truthy_py_or: "truthy (py_or x y) \<longleftrightarrow> truthy x \<or> truthy y"
  by (simp add: py_or_def)


lemma dict_get_absent: "k \<notin> set (dict_keys d) \<Longrightarrow> dict_get d k = PNone"
  by (simp add: dict_get_def dict_keys_def map_of_eq_None_iff [THEN iffD2])

text \<open>
  Claim C7. Whenever \<^verbatim>\<open>normalize_article\<close> returns, the Article's \<^verbatim>\<open>content\<close> is the
  raw \<^verbatim>\<open>content\<close> field when that is truthy, else the raw \<^verbatim>\<open>snippet\<close> field when that
  is truthy, else the Article's \<^verbatim>\<open>description\<close>; so when the raw description or the raw
  snippet is non-empty, the Article's content is not empty.
\<close>

theorem content_resolution_order:
  assumes "normalize_article now a source = Inr out"
  shows "dict_get out ''content'' =
           (if truthy (dict_get a ''content'') then dict_get a ''content''
            else if truthy (dict_get a ''snippet'') then dict_get a ''snippet''
            else dict_get out ''description'')
         \<and> (truthy (dict_get a ''description'') \<or> truthy (dict_get a ''snippet'')
              \<longrightarrow> truthy (dict_get out ''content'') \<and> dict_get out ''content'' \<noteq> PStr '''')"
proof -
  note f = normalize_article_fields [OF assms]
  have c: "dict_get out ''content'' =
           (if truthy (dict_get a ''content'') then dict_get a ''content''
            else if truthy (dict_get a ''snippet'') then dict_get a ''snippet''
            else dict_get out ''description'')"
    unfolding f(3) by (simp add: py_or_def)
  have t: "truthy (dict_get out ''content'')"
    if "truthy (dict_get a ''description'') \<or> truthy (dict_get a ''snippet'')"
    using that unfolding f(3) unfolding f(2) by (auto simp: truthy_py_or)
  from t have "dict_get out ''content'' \<noteq> PStr ''''"
    if "truthy (dict_get a ''description'') \<or> truthy (dict_get a ''snippet'')"
    using that by fastforce
  with c t show ?thesis by blast
qed

theorem content_resolution_order_witness:
  "\<exists>out. normalize_article ''2026-01-01T00:00:00'' [(''description'', PStr ''abc'')] PNone = Inr out
     \<and> truthy (dict_get [(''description'', PStr ''abc'')] ''description'')
     \<and> dict_get out ''content'' = PStr ''abc''"
  using content_resolution_order [OF normalize_abc] normalize_abc by (auto simp: dict_get_simps)















section \<open>Mention detection\<close>



lemma article_text_str:
  assumes "dict_get_default article ''title'' (PStr '''') = PStr t"
      and "dict_get_default article ''description'' (PStr '''') = PStr d"
      and "dict_get_default article ''content'' (PStr '''') = PStr c"
  shows "article_text article = Inr (str_lower (t @ '' '' @ d @ '' '' @ c))"
  by (simp add: article_text_def assms)

lemma detect_str:
  assumes "dict_get_default article ''title'' (PStr '''') = PStr t"
      and "dict_get_default article ''description'' (PStr '''') = PStr d"
      and "dict_get_default article ''content'' (PStr '''') = PStr c"
  shows "detect_mutual_fund_mentions article mf_list =
           Inr (sorted_list_of_set (set (filter
                  (\<lambda>mf. py_in_str (str_lower mf) (str_lower (t @ '' '' @ d @ '' '' @ c)))
                  mf_list)))"
  by (simp add: detect_mutual_fund_mentions_def article_text_str [OF assms])


lemma add_32_mod_256: "k < 256 \<Longrightarrow> 65 \<le> k \<Longrightarrow> (k + 32) mod 256 \<noteq> (32 :: nat)"
proof -
  assume k: "k < 256" "65 \<le> k"
  consider "k + 32 < 256" | "256 \<le> k + 32" by linarith
  then show ?thesis
  proof cases
    case 1
    then have "(k + 32) mod 256 = k + 32" by simp
    with k show ?thesis by linarith
  next
    case 2
    then have "(k + 32) mod 256 = (k + 32 - 256) mod 256"
      by (rule le_mod_geq)
    also from k have "\<dots> = k + 32 - 256" by simp
    finally show ?thesis using k by linarith
  qed
qed

lemma char_lower_space: "char_lower c = CHR '' '' \<longleftrightarrow> c = CHR '' ''"
proof
  assume l: "char_lower c = CHR '' ''"
  show "c = CHR '' ''"
  proof (rule ccontr)
    assume n: "c \<noteq> CHR '' ''"
    define k where "k = (of_char c :: nat)"
    have k: "k < 256" unfolding k_def by simp
    have cl: "char_lower c = (if (65 \<le> k \<and> k \<le> 90) \<or> (192 \<le> k \<and> k \<le> 222 \<and> k \<noteq> 215)
                 then char_of (k + 32) else c)"
      unfolding char_lower_def k_def Let_def ..
    from l n cl have up: "(65 \<le> k \<and> k \<le> 90) \<or> (192 \<le> k \<and> k \<le> 222 \<and> k \<noteq> 215)"
      by (cases "(65 \<le> k \<and> k \<le> 90) \<or> (192 \<le> k \<and> k \<le> 222 \<and> k \<noteq> 215)") simp_all
    with l cl have "char_of (k + 32) = CHR '' ''" by simp
    then have "take_bit 8 (k + 32) = (of_char (CHR '' '') :: nat)"
      by (simp only: char_of_eq_iff)
    then have "(k + 32) mod 256 = 32"
      by (simp add: take_bit_eq_mod)
    moreover from up have "65 \<le> k" by linarith
    ultimately show False
      using add_32_mod_256 [OF k] by blast
  qed
next
  assume "c = CHR '' ''"
  then show "char_lower c = CHR '' ''"
    by (simp add: char_lower_def)
qed

lemma str_lower_Nil: "str_lower mf = [] \<longleftrightarrow> mf = []"
  by (simp add: str_lower_def)

lemma str_lower_one_space: "str_lower mf = '' '' \<longleftrightarrow> mf = '' ''"
  by (cases mf) (auto simp: str_lower_def char_lower_space)

lemma str_lower_two_spaces: "str_lower mf = ''  '' \<longleftrightarrow> mf = ''  ''"
proof (cases mf)
  case Nil
  then show ?thesis by (simp add: str_lower_def)
next
  case (Cons a as)
  have "str_lower as = '' '' \<longleftrightarrow> as = '' ''"
    by (rule str_lower_one_space)
  then show ?thesis
    unfolding Cons by (simp add: str_lower_def char_lower_space)
qed

lemma str_lower_blank:
  "str_lower mf \<in> {'''', '' '', ''  ''} \<longleftrightarrow> mf \<in> {'''', '' '', ''  ''}"
  by (simp add: str_lower_Nil str_lower_one_space str_lower_two_spaces)

lemma py_in_str_two_spaces: "py_in_str x ''  '' \<longleftrightarrow> x \<in> {'''', '' '', ''  ''}"
proof (cases x)
  case Nil
  then show ?thesis by simp
next
  case c1: (Cons a x1)
  show ?thesis
  proof (cases x1)
    case Nil
    with c1 show ?thesis by auto
  next
    case c2: (Cons b x2)
    show ?thesis
    proof (cases x2)
      case Nil
      with c1 c2 show ?thesis by auto
    next
      case (Cons c x3)
      with c1 c2 show ?thesis by auto
    qed
  qed
qed


text \<open>
  Claim C8, as amended. For every Article whose \<^verbatim>\<open>title\<close>, \<^verbatim>\<open>description\<close> and
  \<^verbatim>\<open>content\<close> are strings (a missing field counting as the empty string), the detector
  returns the empty list when the candidate list is empty. When the three fields are all
  empty, the searched text is the two separators alone, and the detector returns the
  sorted candidates among the empty string, one space and two spaces; so it returns the
  empty list exactly when no candidate is one of these three names.
\<close>

theorem detect_empty_results:
  assumes "dict_get_default article ''title'' (PStr '''') = PStr t"
      and "dict_get_default article ''description'' (PStr '''') = PStr d"
      and "dict_get_default article ''content'' (PStr '''') = PStr c"
  shows "detect_mutual_fund_mentions article [] = Inr []
     \<and> (t = [] \<and> d = [] \<and> c = [] \<longrightarrow>
          detect_mutual_fund_mentions article mf_list
            = Inr (sorted_list_of_set (set mf_list \<inter> {'''', '' '', ''  ''}))
        \<and> (detect_mutual_fund_mentions article mf_list = Inr []
              \<longleftrightarrow> (\<forall>mf \<in> set mf_list. mf \<notin> {'''', '' '', ''  ''})))"
proof -
  have 1: "detect_mutual_fund_mentions article [] = Inr []"
    unfolding detect_str [OF assms] by simp
  have 2: "detect_mutual_fund_mentions article mf_list
            = Inr (sorted_list_of_set (set mf_list \<inter> {'''', '' '', ''  ''}))"
    if e: "t = [] \<and> d = [] \<and> c = []"
  proof -
    have joined: "str_lower (t @ '' '' @ d @ '' '' @ c) = ''  ''"
      using e by (simp add: str_lower_def char_lower_space [THEN iffD2])
    have "set (filter (\<lambda>mf. py_in_str (str_lower mf) ''  '') mf_list)
            = set mf_list \<inter> {'''', '' '', ''  ''}"
      unfolding py_in_str_two_spaces str_lower_blank by auto
    then show ?thesis
      unfolding detect_str [OF assms] joined by simp
  qed
  have 3: "detect_mutual_fund_mentions article mf_list = Inr []
              \<longleftrightarrow> (\<forall>mf \<in> set mf_list. mf \<notin> {'''', '' '', ''  ''})"
    if e: "t = [] \<and> d = [] \<and> c = []"
  proof -
    have "sorted_list_of_set (set mf_list \<inter> {'''', '' '', ''  ''}) = []
            \<longleftrightarrow> set mf_list \<inter> {'''', '' '', ''  ''} = {}"
      by (rule sorted_list_of_set_eq_Nil_iff) simp
    then show ?thesis
      unfolding 2 [OF e] by auto
  qed
  from 1 2 3 show ?thesis by blast
qed

text \<open>
  Claim C8 as stated fails: on the Article with empty \<^verbatim>\<open>title\<close>, \<^verbatim>\<open>description\<close> and
  \<^verbatim>\<open>content\<close>, the non-empty candidate list holding the one-space name is returned
  whole, because the name occurs in the separators of the joined text.
\<close>

theorem detect_blank_candidate_on_empty_article:
  "detect_mutual_fund_mentions
     [(''title'', PStr ''''), (''description'', PStr ''''), (''content'', PStr '''')] ['' '']
   = Inr ['' '']"
  by code_simp

lemma blank_fields:
  "dict_get_default [(''title'', PStr ''''), (''description'', PStr ''''), (''content'', PStr '''')]
     ''title'' (PStr '''') = PStr ''''"
  "dict_get_default [(''title'', PStr ''''), (''description'', PStr ''''), (''content'', PStr '''')]
     ''description'' (PStr '''') = PStr ''''"
  "dict_get_default [(''title'', PStr ''''), (''description'', PStr ''''), (''content'', PStr '''')]
     ''content'' (PStr '''') = PStr ''''"
  by (simp_all add: dict_get_default_def)

theorem detect_empty_results_witness:
  "dict_get_default [(''title'', PStr ''''), (''description'', PStr ''''), (''content'', PStr '''')]
     ''title'' (PStr '''') = PStr ''''
   \<and> detect_mutual_fund_mentions
       [(''title'', PStr ''''), (''description'', PStr ''''), (''content'', PStr '''')] [] = Inr []
   \<and> detect_mutual_fund_mentions
       [(''title'', PStr ''''), (''description'', PStr ''''), (''content'', PStr '''')]
       [''HDFC AMC'', ''SBI Mutual Fund''] = Inr []"
  using detect_empty_results [OF blank_fields, of "[''HDFC AMC'', ''SBI Mutual Fund'']"] blank_fields(1)
  by simp





section \<open>Deduplication\<close>

lemma first_occurrences_snoc:
  "first_occurrences (xs @ [x]) =
     (if x \<in> set xs then first_occurrences xs else first_occurrences xs @ [x])"
  by (simp add: first_occurrences_def)

lemma set_first_occurrences: "set (first_occurrences xs) = set xs"
  by (simp add: first_occurrences_def)

lemma distinct_first_occurrences: "distinct (first_occurrences xs)"
  by (simp add: first_occurrences_def)

lemma shorter_iff:
  "shorter x r \<longleftrightarrow> (\<exists>lx lr. content_len x = Inr lx \<and> content_len r = Inr lr \<and> lx < lr)"
  by (auto simp: shorter_def split: sum.splits)

lemma not_longer_iff:
  "not_longer x r \<longleftrightarrow> (\<exists>lx lr. content_len x = Inr lx \<and> content_len r = Inr lr \<and> lx \<le> lr)"
  by (auto simp: not_longer_def split: sum.splits)

lemma shorter_trans: "shorter x e \<Longrightarrow> shorter e n \<Longrightarrow> shorter x n"
  unfolding shorter_iff by force

lemma not_longer_shorter: "not_longer x e \<Longrightarrow> shorter e n \<Longrightarrow> shorter x n"
  unfolding shorter_iff not_longer_iff by force

lemma first_longest_in_single: "first_longest_in [n] n"
proof -
  have "[n] = [] @ n # []" by simp
  then show ?thesis
    unfolding first_longest_in_def by (metis empty_iff list.set(1))
qed

lemma first_longest_in_keep:
  assumes "first_longest_in g e" and "not_longer n e"
  shows "first_longest_in (g @ [n]) e"
proof -
  from assms(1) obtain pre post where g: "g = pre @ e # post"
    and pre: "\<forall>x \<in> set pre. shorter x e" and post: "\<forall>x \<in> set post. not_longer x e"
    unfolding first_longest_in_def by blast
  have "g @ [n] = pre @ e # (post @ [n])" by (simp add: g)
  moreover from post assms(2) have "\<forall>x \<in> set (post @ [n]). not_longer x e" by simp
  ultimately show ?thesis
    unfolding first_longest_in_def using pre by blast
qed

lemma first_longest_in_replace:
  assumes "first_longest_in g e" and "shorter e n"
  shows "first_longest_in (g @ [n]) n"
proof -
  from assms(1) obtain pre post where g: "g = pre @ e # post"
    and pre: "\<forall>x \<in> set pre. shorter x e" and post: "\<forall>x \<in> set post. not_longer x e"
    unfolding first_longest_in_def by blast
  have "g @ [n] = (pre @ e # post) @ n # []" by (simp add: g)
  moreover have "\<forall>x \<in> set (pre @ e # post). shorter x n"
    using pre post assms(2) shorter_trans not_longer_shorter by auto
  ultimately show ?thesis
    unfolding first_longest_in_def by (metis empty_iff list.set(1))
qed

lemma dedupe_step_invariant:
  assumes inv: "dedupe_invariant seen ps"
      and key: "map_of n ''id'' = Some k" and ne: "n \<noteq> []"
      and step: "dedupe_step seen n = Inr seen'"
  shows "dedupe_invariant seen' (ps @ [n])"
proof -
  let ?gid = "\<lambda>n. dict_get n ''id''"
  have gid: "?gid n = k" using key by (simp add: dict_get_def)
  have item: "dict_item n ''id'' = Inr k" using key by (simp add: dict_item_def)
  from inv have keys: "map fst seen = first_occurrences (map ?gid ps)"
    and ent: "\<And>k r. map_of seen k = Some r \<Longrightarrow>
          ?gid r = k \<and> r \<noteq> [] \<and> first_longest_in (filter (\<lambda>n. ?gid n = k) ps) r"
    unfolding dedupe_invariant_def by blast+
  have in_keys: "k \<in> set (map ?gid ps) \<longleftrightarrow> map_of seen k \<noteq> None"
  proof -
    have "k \<in> set (map ?gid ps) \<longleftrightarrow> k \<in> set (map fst seen)"
      by (simp only: keys set_first_occurrences)
    also have "\<dots> \<longleftrightarrow> map_of seen k \<noteq> None"
      by (simp add: map_of_eq_None_iff)
    finally show ?thesis .
  qed
  have other: "filter (\<lambda>m. ?gid m = k') (ps @ [n]) = filter (\<lambda>m. ?gid m = k') ps"
    if "k' \<noteq> k" for k'
    using that gid by simp
  have same: "filter (\<lambda>m. ?gid m = k) (ps @ [n]) = filter (\<lambda>m. ?gid m = k) ps @ [n]"
    using gid by simp
  show ?thesis
  proof (cases "map_of seen k")
    case None
    with step item have seen': "seen' = AList.update k n seen"
      by (simp add: dedupe_step_def)
    from None in_keys have fresh: "k \<notin> set (map ?gid ps)" by simp
    then have empty: "filter (\<lambda>m. ?gid m = k) ps = []"
      by (auto simp: filter_empty_conv)
    have k1: "map fst seen' = first_occurrences (map ?gid (ps @ [n]))"
    proof -
      from fresh have "k \<notin> set (map fst seen)"
        by (simp only: keys set_first_occurrences) simp
      then have "map fst seen' = map fst seen @ [k]"
        unfolding seen' by (simp add: update_keys)
      with fresh show ?thesis
        by (simp add: first_occurrences_snoc gid keys)
    qed
    have k2: "?gid r = k' \<and> r \<noteq> [] \<and> first_longest_in (filter (\<lambda>m. ?gid m = k') (ps @ [n])) r"
      if "map_of seen' k' = Some r" for k' r
    proof (cases "k' = k")
      case True
      with that have "r = n" unfolding seen' by (simp add: update_conv')
      with True gid ne same empty first_longest_in_single show ?thesis by simp
    next
      case False
      with that have "map_of seen k' = Some r" unfolding seen' by (simp add: update_conv')
      from ent [OF this] other [OF False] show ?thesis by simp
    qed
    from k1 k2 show ?thesis
      unfolding dedupe_invariant_def by blast
  next
    case (Some e)
    from ent [OF Some] have e: "?gid e = k" "e \<noteq> []"
      "first_longest_in (filter (\<lambda>n. ?gid n = k) ps) e"
      by blast+
    from step item Some e(2) obtain le ln where
      le: "content_len e = Inr le" and ln: "content_len n = Inr ln"
      and seen': "seen' = (if ln > le then AList.update k n seen else seen)"
      by (auto simp: dedupe_step_def split: sum.splits)
    from Some in_keys have old: "k \<in> set (map ?gid ps)" by simp
    have kin: "k \<in> set (map fst seen)"
      using old by (simp only: keys set_first_occurrences)
    have k1: "map fst seen' = first_occurrences (map ?gid (ps @ [n]))"
    proof -
      have "map fst seen' = map fst seen"
        unfolding seen' using kin by (simp add: update_keys)
      with old show ?thesis
        by (simp add: first_occurrences_snoc gid keys)
    qed
    have k2: "?gid r = k' \<and> r \<noteq> [] \<and> first_longest_in (filter (\<lambda>m. ?gid m = k') (ps @ [n])) r"
      if r: "map_of seen' k' = Some r" for k' r
    proof (cases "k' = k")
      case False
      with r have "map_of seen k' = Some r"
        unfolding seen' by (simp add: update_conv' split: if_splits)
      from ent [OF this] other [OF False] show ?thesis by simp
    next
      case True
      show ?thesis
      proof (cases "ln > le")
        case longer: True
        with r \<open>k' = k\<close> have "r = n" unfolding seen' by (simp add: update_conv')
        moreover from longer le ln have "shorter e n"
          unfolding shorter_iff by simp
        then have "first_longest_in (filter (\<lambda>n. ?gid n = k) ps @ [n]) n"
          by (rule first_longest_in_replace [OF e(3)])
        ultimately show ?thesis
          using \<open>k' = k\<close> gid ne same by simp
      next
        case not_longer: False
        with r \<open>k' = k\<close> Some have "r = e" unfolding seen' by simp
        moreover from not_longer le ln have "not_longer n e"
          unfolding not_longer_iff by simp
        then have "first_longest_in (filter (\<lambda>n. ?gid n = k) ps @ [n]) e"
          by (rule first_longest_in_keep [OF e(3)])
        ultimately show ?thesis
          using \<open>k' = k\<close> e(1,2) same by simp
      qed
    qed
    from k1 k2 show ?thesis
      unfolding dedupe_invariant_def by blast
  qed
qed

lemma normalize_article_has_id:
  assumes "normalize_article now a source = Inr out"
  shows "map_of out ''id'' = Some (dict_get out ''id'')" and "out \<noteq> []"
proof -
  from normalize_article_fields(9) [OF assms]
  have keys: "map fst out = [''title'', ''description'', ''content'', ''source_url'',
           ''published'', ''source'', ''summary'', ''id'']"
    by (simp add: dict_keys_def)
  have "''id'' \<in> set (map fst out)"
    unfolding keys by simp
  then have "map_of out ''id'' \<noteq> None"
    by (simp add: map_of_eq_None_iff)
  then obtain v where "map_of out ''id'' = Some v"
    by blast
  then show "map_of out ''id'' = Some (dict_get out ''id'')"
    by (simp add: dict_get_def)
  show "out \<noteq> []"
    using keys by (cases out) simp_all
qed

lemma dedupe_loop_invariant:
  assumes "dedupe_invariant seen ps" and "dedupe_loop clock i seen as = Inr seen'"
  shows "\<exists>norms. normalized_inputs clock i as = map Inr norms
           \<and> dedupe_invariant seen' (ps @ norms)"
  using assms
proof (induction as arbitrary: i seen ps)
  case Nil
  then have "normalized_inputs clock i [] = map Inr [] \<and> dedupe_invariant seen' (ps @ [])"
    by simp
  then show ?case by blast
next
  case (Cons a as)
  from Cons.prems(2) obtain norm s1 where
    n: "normalize_article (clock i) a (dict_get a ''source'') = Inr norm"
    and st: "dedupe_step seen norm = Inr s1"
    and rest: "dedupe_loop clock (Suc i) s1 as = Inr seen'"
    by (auto split: sum.splits)
  have "dedupe_invariant s1 (ps @ [norm])"
    using Cons.prems(1) normalize_article_has_id [OF n] st
    by (rule dedupe_step_invariant)
  from Cons.IH [OF this rest] obtain norms where
    ns: "normalized_inputs clock (Suc i) as = map Inr norms"
    and inv: "dedupe_invariant seen' ((ps @ [norm]) @ norms)"
    by blast
  have "normalized_inputs clock i (a # as) = map Inr (norm # norms)"
    using n ns by simp
  moreover have "dedupe_invariant seen' (ps @ norm # norms)"
    using inv by simp
  ultimately show ?case by blast
qed

lemma dedupe_invariant_empty: "dedupe_invariant [] []"
  by (simp add: dedupe_invariant_def first_occurrences_def)

text \<open>
  Claim C2. Whenever \<^verbatim>\<open>dedupe_articles\<close> returns, every input record was normalized
  (in input order, giving \<open>norms\<close>), the result holds one record per distinct \<^verbatim>\<open>id\<close> of
  \<open>norms\<close>, in the order in which the ids first occur, and the record \<open>r\<close> retained for
  an id is the first longest of the normalized records with that id: every such record
  before \<open>r\<close> has a strictly shorter \<^verbatim>\<open>content\<close>, and no such record after \<open>r\<close> has a
  longer one. So an incoming record replaces the retained one exactly when its content
  is strictly longer, and among records of equal content length the first seen is kept.
\<close>

theorem dedupe_retains_first_longest:
  assumes "dedupe_articles clock articles = Inr out"
  shows "\<exists>norms. normalized_inputs clock 0 articles = map Inr norms
     \<and> map (\<lambda>r. dict_get r ''id'') out = first_occurrences (map (\<lambda>n. dict_get n ''id'') norms)
     \<and> distinct (map (\<lambda>r. dict_get r ''id'') out)
     \<and> (\<forall>r \<in> set out. \<exists>pre post.
           filter (\<lambda>n. dict_get n ''id'' = dict_get r ''id'') norms = pre @ r # post
         \<and> (\<forall>x \<in> set pre. shorter x r) \<and> (\<forall>x \<in> set post. not_longer x r))"
proof -
  let ?gid = "\<lambda>n. dict_get n ''id''"
  from assms obtain seen where loop: "dedupe_loop clock 0 [] articles = Inr seen"
    and out: "out = map snd seen"
    unfolding dedupe_articles_def by (cases "dedupe_loop clock 0 [] articles") auto
  from dedupe_loop_invariant [OF dedupe_invariant_empty loop] obtain norms where
    ns: "normalized_inputs clock 0 articles = map Inr norms"
    and inv: "dedupe_invariant seen norms"
    by auto
  from inv have keys: "map fst seen = first_occurrences (map ?gid norms)"
    and ent: "\<And>k r. map_of seen k = Some r \<Longrightarrow>
          ?gid r = k \<and> first_longest_in (filter (\<lambda>n. ?gid n = k) norms) r"
    unfolding dedupe_invariant_def by blast+
  have dist: "distinct (map fst seen)"
    unfolding keys by (rule distinct_first_occurrences)
  have pair: "?gid r = k \<and> first_longest_in (filter (\<lambda>n. ?gid n = k) norms) r"
    if "(k, r) \<in> set seen" for k r
  proof -
    from that dist have "map_of seen k = Some r" by simp
    then show ?thesis by (rule ent)
  qed
  have ids: "map ?gid out = map fst seen"
  proof -
    have "?gid (snd x) = fst x" if "x \<in> set seen" for x
      using pair [of "fst x" "snd x"] that by simp
    then have "map (\<lambda>x. ?gid (snd x)) seen = map fst seen"
      by simp
    then show ?thesis
      unfolding out by (simp add: comp_def)
  qed
  have each: "\<exists>pre post.
           filter (\<lambda>n. ?gid n = ?gid r) norms = pre @ r # post
         \<and> (\<forall>x \<in> set pre. shorter x r) \<and> (\<forall>x \<in> set post. not_longer x r)"
    if "r \<in> set out" for r
  proof -
    from that obtain k where "(k, r) \<in> set seen"
      unfolding out by auto
    from pair [OF this] show ?thesis
      unfolding first_longest_in_def by blast
  qed
  have i2: "map ?gid out = first_occurrences (map ?gid norms)"
    unfolding ids by (rule keys)
  have d: "distinct (map ?gid out)"
    unfolding ids by (rule dist)
  have e: "\<forall>r \<in> set out. \<exists>pre post.
           filter (\<lambda>n. ?gid n = ?gid r) norms = pre @ r # post
         \<and> (\<forall>x \<in> set pre. shorter x r) \<and> (\<forall>x \<in> set post. not_longer x r)"
    using each by blast
  show ?thesis
    by (intro exI [of _ norms] conjI ns i2 d e)
qed

lemma normalize_short:
  "normalize_article now
      [(''title'', PStr ''Fund X gains''), (''url'', PStr ''http://a/1''),
       (''content'', PStr ''short'')] PNone
     = Inr [(''title'', PStr ''Fund X gains''), (''description'', PStr ''''),
            (''content'', PStr ''short''), (''source_url'', PStr ''http://a/1''),
            (''published'', PStr now), (''source'', PStr ''''),
            (''summary'', PStr ''short...''),
            (''id'', PStr (sha256_hexdigest (utf8_encode ''Fund X gainshttp://a/1'')))]"
  by (simp add: normalize_article_def Let_def dict_get_simps py_or_def summary_of_def
        truncate_ellipsis_def article_id_def)

lemma normalize_long:
  "normalize_article now
      [(''title'', PStr ''Fund X gains''), (''url'', PStr ''http://a/1''),
       (''content'', PStr ''a much longer article body here'')] PNone
     = Inr [(''title'', PStr ''Fund X gains''), (''description'', PStr ''''),
            (''content'', PStr ''a much longer article body here''),
            (''source_url'', PStr ''http://a/1''),
            (''published'', PStr now), (''source'', PStr ''''),
            (''summary'', PStr ''a much longer article body here...''),
            (''id'', PStr (sha256_hexdigest (utf8_encode ''Fund X gainshttp://a/1'')))]"
  by (simp add: normalize_article_def Let_def dict_get_simps py_or_def summary_of_def
        truncate_ellipsis_def article_id_def)

lemma dedupe_short_long:
  "dedupe_articles (\<lambda>i. ''2026-01-01T00:00:00'')
     [[(''title'', PStr ''Fund X gains''), (''url'', PStr ''http://a/1''),
       (''content'', PStr ''short'')],
      [(''title'', PStr ''Fund X gains''), (''url'', PStr ''http://a/1''),
       (''content'', PStr ''a much longer article body here'')]]
   = Inr [[(''title'', PStr ''Fund X gains''), (''description'', PStr ''''),
            (''content'', PStr ''a much longer article body here''),
            (''source_url'', PStr ''http://a/1''),
            (''published'', PStr ''2026-01-01T00:00:00''), (''source'', PStr ''''),
            (''summary'', PStr ''a much longer article body here...''),
            (''id'', PStr (sha256_hexdigest (utf8_encode ''Fund X gainshttp://a/1'')))]]"
  by (simp add: dedupe_articles_def dict_get_simps normalize_short normalize_long
        dedupe_step_def dict_item_def content_len_def dict_get_default_def py_or_def)

theorem dedupe_retains_first_longest_witness:
  "\<exists>out. dedupe_articles (\<lambda>i. ''2026-01-01T00:00:00'')
     [[(''title'', PStr ''Fund X gains''), (''url'', PStr ''http://a/1''),
       (''content'', PStr ''short'')],
      [(''title'', PStr ''Fund X gains''), (''url'', PStr ''http://a/1''),
       (''content'', PStr ''a much longer article body here'')]] = Inr out
   \<and> map (\<lambda>r. dict_get r ''content'') out = [PStr ''a much longer article body here'']
   \<and> distinct (map (\<lambda>r. dict_get r ''id'') out)"
  using dedupe_retains_first_longest [OF dedupe_short_long] dedupe_short_long
  by (simp add: dict_get_simps)

end
